theory Spec2Isabelle
  imports Complex_Main "HOL-Library.AList"
begin

section \<open>The automaton grid (class Grid of main.py)\<close>

text \<open>
  The grid widget keeps \<open>rows\<close>, \<open>cols\<close>, a two-dimensional boolean numpy array
  \<open>grid\<close> and the rule dictionary with its two lists \<open>birth\<close> and \<open>survival\<close>.
  The array is modelled row-major as a list of rows. The rule lists hold Python
  integers, so they are lists of \<open>int\<close>.
\<close>

datatype py_error = IndexError | ValueError | ZeroDivisionError

record Grid =
  rows :: nat
  cols :: nat
  grid :: "bool list list"
  birth :: "int list"
  survival :: "int list"

text \<open>
  Every method of the class leaves the array with shape \<open>(rows, cols)\<close>: the
  constructor, \<open>resize_grid\<close> and \<open>clear_grid\<close> allocate it with \<open>np.zeros\<close> from
  exactly these two fields, and \<open>update_grid\<close> replaces it by a copy. Under this
  shape every index the methods compute is in range.
\<close>

definition grid_ok :: "Grid \<Rightarrow> bool" where
  "grid_ok g \<longleftrightarrow> length (grid g) = rows g \<and> list_all (\<lambda>r. length r = cols g) (grid g)"

text \<open>\<open>np.zeros((r, c), dtype=bool)\<close>.\<close>

definition zeros :: "nat \<Rightarrow> nat \<Rightarrow> bool list list" where
  "zeros r c = replicate r (replicate c False)"

text \<open>\<open>Grid.__init__\<close>, with the fields the simulation uses.\<close>

definition init_grid :: "nat \<Rightarrow> nat \<Rightarrow> Grid" where
  "init_grid r c = \<lparr>rows = r, cols = c, grid = zeros r c, birth = [3], survival = [2, 3]\<rparr>"

text \<open>\<open>set_rules\<close> stores both lists as they are given; nothing is validated.\<close>

definition set_rules :: "Grid \<Rightarrow> int list \<Rightarrow> int list \<Rightarrow> Grid" where
  "set_rules g b s = g\<lparr>birth := b, survival := s\<rparr>"

text \<open>\<open>a[row, col] = v\<close> on an array stored as a list of rows.\<close>

definition set2 :: "bool list list \<Rightarrow> nat \<Rightarrow> nat \<Rightarrow> bool \<Rightarrow> bool list list" where
  "set2 a row col v = a[row := (a ! row)[col := v]]"

text \<open>
  \<open>count_alive_neighbors\<close>: two nested \<open>range\<close> loops over
  \<open>max(0, row - 1) .. min(rows, row + 2)\<close> and the same for the columns, adding one
  for each live cell other than \<open>(row, col)\<close>. Subtraction on \<open>nat\<close> stops at 0,
  which is \<open>max(0, row - 1)\<close>.
\<close>

definition count_alive_neighbors :: "Grid \<Rightarrow> nat \<Rightarrow> nat \<Rightarrow> nat" where
  "count_alive_neighbors g row col =
     fold (\<lambda>i count.
        fold (\<lambda>j count. if (i \<noteq> row \<or> j \<noteq> col) \<and> grid g ! i ! j then count + 1 else count)
          [col - 1 ..< min (cols g) (col + 2)] count)
       [row - 1 ..< min (rows g) (row + 2)] 0"

text \<open>
  The body of the double loop of \<open>update_grid\<close>: the count and the old value are
  read from \<open>self.grid\<close>, the write goes to \<open>new_grid\<close>.
\<close>

definition update_cell :: "Grid \<Rightarrow> bool list list \<Rightarrow> nat \<Rightarrow> nat \<Rightarrow> bool list list" where
  "update_cell g new_grid row col =
     (let neighbors = count_alive_neighbors g row col in
      if grid g ! row ! col then
        (if int neighbors \<notin> set (survival g) then set2 new_grid row col False else new_grid)
      else
        (if int neighbors \<in> set (birth g) then set2 new_grid row col True else new_grid))"

definition update_grid :: "Grid \<Rightarrow> Grid" where
  "update_grid g =
     g\<lparr>grid := fold (\<lambda>row new_grid. fold (\<lambda>col new_grid. update_cell g new_grid row col)
                        [0 ..< cols g] new_grid)
                 [0 ..< rows g] (grid g)\<rparr>"

text \<open>\<open>clear_grid\<close>.\<close>

definition clear_grid :: "Grid \<Rightarrow> Grid" where
  "clear_grid g = g\<lparr>grid := zeros (rows g) (cols g)\<rparr>"

text \<open>
  \<open>resize_grid\<close>. \<open>np.zeros\<close> raises \<open>ValueError\<close> on a negative dimension.
  Both slices \<open>[:min_rows, :min_cols]\<close> have the shape \<open>(min_rows, min_cols)\<close>, and
  the assignment copies that block into the top-left corner of the new array.
\<close>

definition assign_block :: "bool list list \<Rightarrow> nat \<Rightarrow> nat \<Rightarrow> bool list list \<Rightarrow> bool list list" where
  "assign_block dst m n src =
     map (\<lambda>i. if i < m then take n (src ! i) @ drop n (dst ! i) else dst ! i) [0 ..< length dst]"

definition resize_grid :: "Grid \<Rightarrow> int \<Rightarrow> int \<Rightarrow> py_error + Grid" where
  "resize_grid g new_rows new_cols =
     (if new_rows < 0 \<or> new_cols < 0 then Inl ValueError
      else
        let new_grid = zeros (nat new_rows) (nat new_cols);
            min_rows = min (rows g) (nat new_rows);
            min_cols = min (cols g) (nat new_cols);
            new_grid = assign_block new_grid min_rows min_cols (grid g)
        in Inr (g\<lparr>rows := nat new_rows, cols := nat new_cols, grid := new_grid\<rparr>))"

text \<open>
  The rule of one generation in the words of the specification. The Moore
  neighbourhood of a cell is the eight cells at the offsets below; a position
  outside the grid holds no live cell (edges are clamped, nothing wraps around).
\<close>

definition moore_offsets :: "(int \<times> int) list" where
  "moore_offsets = [(-1, -1), (-1, 0), (-1, 1), (0, -1), (0, 1), (1, -1), (1, 0), (1, 1)]"

definition alive_at :: "Grid \<Rightarrow> int \<Rightarrow> int \<Rightarrow> bool" where
  "alive_at g i j \<longleftrightarrow>
     0 \<le> i \<and> i < int (rows g) \<and> 0 \<le> j \<and> j < int (cols g) \<and> grid g ! nat i ! nat j"

definition moore_count :: "Grid \<Rightarrow> nat \<Rightarrow> nat \<Rightarrow> nat" where
  "moore_count g r c =
     length (filter (\<lambda>(di, dj). alive_at g (int r + di) (int c + dj)) moore_offsets)"

definition spec_next :: "Grid \<Rightarrow> nat \<Rightarrow> nat \<Rightarrow> bool" where
  "spec_next g r c =
     (if grid g ! r ! c \<and> int (moore_count g r c) \<notin> set (survival g) then False
      else if \<not> grid g ! r ! c \<and> int (moore_count g r c) \<in> set (birth g) then True
      else grid g ! r ! c)"

text \<open>The value the loop body of \<open>update_grid\<close> leaves in one cell.\<close>

definition next_cell :: "Grid \<Rightarrow> nat \<Rightarrow> nat \<Rightarrow> bool" where
  "next_cell g r c =
     (if grid g ! r ! c then int (count_alive_neighbors g r c) \<in> set (survival g)
      else int (count_alive_neighbors g r c) \<in> set (birth g))"

text \<open>
  The two phases of the blinker: three live cells in a row centred at \<open>(r, c)\<close>,
  horizontally or vertically, in an otherwise dead grid of \<open>R\<close> rows and \<open>C\<close>
  columns.
\<close>

definition blinker_horizontal :: "nat \<Rightarrow> nat \<Rightarrow> nat \<Rightarrow> nat \<Rightarrow> bool list list" where
  "blinker_horizontal R C r c =
     map (\<lambda>i. map (\<lambda>j. i = r \<and> (j + 1 = c \<or> j = c \<or> j = c + 1)) [0 ..< C]) [0 ..< R]"

definition blinker_vertical :: "nat \<Rightarrow> nat \<Rightarrow> nat \<Rightarrow> nat \<Rightarrow> bool list list" where
  "blinker_vertical R C r c =
     map (\<lambda>i. map (\<lambda>j. j = c \<and> (i + 1 = r \<or> i = r \<or> i = r + 1)) [0 ..< C]) [0 ..< R]"


section \<open>The voice registry (class SoundManager of main.py)\<close>

text \<open>
  The manager keeps its sound parameters and two dictionaries keyed by the cell
  \<open>(row, col)\<close>: \<open>oscillators\<close>, the registry of sounding voices, and
  \<open>envelopes\<close>. A Python dictionary keeps its keys in insertion order, holds each
  key once, and \<open>update_all_waveforms\<close> walks the keys in that order, so both are
  association lists: \<open>AList.update\<close> overwrites in place or appends at the end,
  \<open>AList.delete\<close> removes the key. Frequencies and amplitudes are Python floats,
  taken here as exact real numbers.

  The calls into the audio library are recorded, in the order they are made, in
  the list \<open>commands\<close>.
\<close>

type_synonym cell = "nat \<times> nat"

datatype waveform_class = Sine | Square | Saw | Tri

text \<open>\<open>Fader(fadein, fadeout, dur, mul)\<close>.\<close>

datatype fader = Fader (fadein: real) (fadeout: real) (dur: real) (fader_mul: real)

text \<open>The \<open>mul\<close> attribute of an oscillator: a number, or an envelope object.\<close>

datatype mul = Const real | Env fader

record oscillator =
  osc_class :: waveform_class
  osc_freq :: real
  osc_mul :: mul

datatype command =
    OscOut cell waveform_class real
  | FaderPlay cell fader
  | FaderStop cell
  | OscStop cell
  | ServerBoot
  | ServerStart
  | ServerSetMidi
  | ServerStop

record SoundManager =
  frequency_range :: "real \<times> real"
  amplitude :: real
  waveform :: string
  smooth_transitions :: bool
  oscillators :: "(cell \<times> oscillator) list"
  envelopes :: "(cell \<times> fader) list"
  commands :: "command list"

text \<open>
  \<open>self.grid\<close> is a reference to the grid widget, and the manager reads the
  widget's \<open>rows\<close> and \<open>cols\<close> at the time of each call. The functions below take
  the widget's current state as the argument \<open>w\<close>.
\<close>

definition init_sound_manager :: SoundManager where
  "init_sound_manager =
     \<lparr>frequency_range = (200, 1000), amplitude = 0.5, waveform = ''Sine'',
      smooth_transitions = True, oscillators = [], envelopes = [],
      commands = [ServerBoot, ServerStart, ServerSetMidi]\<rparr>"

definition has_key :: "('k \<times> 'v) list \<Rightarrow> 'k \<Rightarrow> bool" where
  "has_key d k \<longleftrightarrow> k \<in> set (map fst d)"

definition emit :: "command list \<Rightarrow> SoundManager \<Rightarrow> SoundManager" where
  "emit cs sm = sm\<lparr>commands := commands sm @ cs\<rparr>"

text \<open>
  \<open>calculate_frequency\<close>. \<open>/\<close> on two Python integers is true division and
  raises \<open>ZeroDivisionError\<close> on a zero divisor.
\<close>

definition calculate_frequency :: "SoundManager \<Rightarrow> Grid \<Rightarrow> nat \<Rightarrow> nat \<Rightarrow> py_error + real" where
  "calculate_frequency sm w row col =
     (if cols w = 0 then Inl ZeroDivisionError
      else
        let freq = fst (frequency_range sm)
                   + (snd (frequency_range sm) - fst (frequency_range sm)) * (real col / real (cols w))
        in if rows w = 0 then Inl ZeroDivisionError
           else Inr (freq + (snd (frequency_range sm) - fst (frequency_range sm))
                            * (real row / real (rows w)) * 0.5))"

definition get_waveform_class :: "string \<Rightarrow> waveform_class" where
  "get_waveform_class waveform_type =
     (case map_of [(''Sine'', Sine), (''Square'', Square), (''Sawtooth'', Saw), (''Triangle'', Tri)]
             waveform_type of
        Some c \<Rightarrow> c
      | None \<Rightarrow> Sine)"

definition play_sound :: "SoundManager \<Rightarrow> Grid \<Rightarrow> nat \<Rightarrow> nat \<Rightarrow> py_error + SoundManager" where
  "play_sound sm w row col =
     (let key = (row, col) in
      if has_key (oscillators sm) key then Inr sm
      else
        case calculate_frequency sm w row col of
          Inl e \<Rightarrow> Inl e
        | Inr freq \<Rightarrow>
            let waveform_class = get_waveform_class (waveform sm);
                sm = emit [OscOut key waveform_class freq] sm
            in if smooth_transitions sm then
                 let env = Fader 0.5 0.5 0 (amplitude sm);
                     sm = emit [FaderPlay key env] sm;
                     osc = \<lparr>osc_class = waveform_class, osc_freq = freq, osc_mul = Env env\<rparr>;
                     sm = sm\<lparr>envelopes := AList.update key env (envelopes sm)\<rparr>
                 in Inr (sm\<lparr>oscillators := AList.update key osc (oscillators sm)\<rparr>)
               else
                 let osc = \<lparr>osc_class = waveform_class, osc_freq = freq,
                            osc_mul = Const (amplitude sm)\<rparr>
                 in Inr (sm\<lparr>oscillators := AList.update key osc (oscillators sm)\<rparr>))"

definition stop_sound :: "SoundManager \<Rightarrow> nat \<Rightarrow> nat \<Rightarrow> SoundManager" where
  "stop_sound sm row col =
     (let key = (row, col) in
      if has_key (oscillators sm) key then
        let sm = (if smooth_transitions sm \<and> has_key (envelopes sm) key
                  then emit [FaderStop key] sm else sm);
            sm = emit [OscStop key] sm;
            sm = sm\<lparr>oscillators := AList.delete key (oscillators sm)\<rparr>
        in if has_key (envelopes sm) key
           then sm\<lparr>envelopes := AList.delete key (envelopes sm)\<rparr>
           else sm
      else sm)"

text \<open>
  \<open>a[row, col]\<close> on a numpy array with non-negative indices: \<open>IndexError\<close> when
  an index is not below the array's extent on its axis.
\<close>

definition getitem2 :: "bool list list \<Rightarrow> nat \<Rightarrow> nat \<Rightarrow> py_error + bool" where
  "getitem2 a row col =
     (if row < length a \<and> col < length (a ! row) then Inr (a ! row ! col) else Inl IndexError)"

text \<open>A \<open>for\<close> loop whose body may raise: the first exception ends the loop.\<close>

fun for_each :: "('a \<Rightarrow> 's \<Rightarrow> py_error + 's) \<Rightarrow> 'a list \<Rightarrow> 's \<Rightarrow> py_error + 's" where
  "for_each body [] s = Inr s"
| "for_each body (x # xs) s =
     (case body x s of Inl e \<Rightarrow> Inl e | Inr s' \<Rightarrow> for_each body xs s')"

text \<open>The body of the double loop of \<open>update_sounds\<close>.\<close>

definition update_sounds_cell ::
  "Grid \<Rightarrow> bool list list \<Rightarrow> bool list list \<Rightarrow> nat \<Rightarrow> nat \<Rightarrow> SoundManager \<Rightarrow> py_error + SoundManager" where
  "update_sounds_cell w previous_grid current_grid row col sm =
     (case getitem2 previous_grid row col of
        Inl e \<Rightarrow> Inl e
      | Inr was_alive \<Rightarrow>
          (case getitem2 current_grid row col of
             Inl e \<Rightarrow> Inl e
           | Inr is_alive \<Rightarrow>
               if \<not> was_alive \<and> is_alive then play_sound sm w row col
               else if was_alive \<and> \<not> is_alive then Inr (stop_sound sm row col)
               else Inr sm))"

definition update_sounds ::
  "SoundManager \<Rightarrow> Grid \<Rightarrow> bool list list \<Rightarrow> bool list list \<Rightarrow> py_error + SoundManager" where
  "update_sounds sm w previous_grid current_grid =
     for_each (\<lambda>row. for_each (update_sounds_cell w previous_grid current_grid row) [0 ..< cols w])
       [0 ..< rows w] sm"

text \<open>
  \<open>update_all_waveforms\<close> takes a snapshot of the keys, then stops and restarts
  each of them; \<open>set_waveform\<close> stores the new name first.
\<close>

definition update_all_waveforms :: "SoundManager \<Rightarrow> Grid \<Rightarrow> py_error + SoundManager" where
  "update_all_waveforms sm w =
     (let active_keys = map fst (oscillators sm) in
      for_each (\<lambda>key sm. case key of (row, col) \<Rightarrow> play_sound (stop_sound sm row col) w row col)
        active_keys sm)"

definition set_waveform :: "SoundManager \<Rightarrow> Grid \<Rightarrow> string \<Rightarrow> py_error + SoundManager" where
  "set_waveform sm w waveform_type = update_all_waveforms (sm\<lparr>waveform := waveform_type\<rparr>) w"

text \<open>\<open>shutdown\<close> is the single call \<open>self.server.stop()\<close>.\<close>

definition shutdown :: "SoundManager \<Rightarrow> SoundManager" where
  "shutdown sm = emit [ServerStop] sm"

text \<open>
  The driver's \<open>next_generation\<close>, on the manager's side: \<open>update_sounds\<close> with the
  grid kept from the generation before, which is then replaced by the current
  one. \<open>run_generations\<close> does this for a list of successive grids.
\<close>

fun run_generations ::
  "SoundManager \<Rightarrow> Grid \<Rightarrow> bool list list \<Rightarrow> bool list list list \<Rightarrow> py_error + SoundManager" where
  "run_generations sm w previous_grid [] = Inr sm"
| "run_generations sm w previous_grid (current_grid # later) =
     (case update_sounds sm w previous_grid current_grid of
        Inl e \<Rightarrow> Inl e
      | Inr sm' \<Rightarrow> run_generations sm' w current_grid later)"


text \<open>
  The frequency mapping in the words of the specification, for a range
  \<open>(fmin, fmax)\<close> on a grid of \<open>rws\<close> rows and \<open>cls\<close> columns.
\<close>

definition spec_frequency :: "real \<times> real \<Rightarrow> nat \<Rightarrow> nat \<Rightarrow> nat \<Rightarrow> nat \<Rightarrow> real" where
  "spec_frequency frange rws cls row col =
     (case frange of (fmin, fmax) \<Rightarrow>
        fmin + (fmax - fmin) * (real col / real cls) + 0.5 * (fmax - fmin) * (real row / real rws))"

text \<open>
  The registry's key set, the live cells of an array inside the first \<open>R\<close> rows
  and \<open>C\<close> columns, an array of exactly that shape, and an array on which every
  index of that rectangle is in range.
\<close>

definition in_range2 :: "bool list list \<Rightarrow> nat \<Rightarrow> nat \<Rightarrow> bool" where
  "in_range2 a row col \<longleftrightarrow> row < length a \<and> col < length (a ! row)"

definition covers :: "bool list list \<Rightarrow> nat \<Rightarrow> nat \<Rightarrow> bool" where
  "covers a R C \<longleftrightarrow> list_all (\<lambda>row. list_all (\<lambda>col. in_range2 a row col) [0 ..< C]) [0 ..< R]"

definition has_shape :: "bool list list \<Rightarrow> nat \<Rightarrow> nat \<Rightarrow> bool" where
  "has_shape a R C \<longleftrightarrow> length a = R \<and> list_all (\<lambda>r. length r = C) a"

definition live_cells :: "bool list list \<Rightarrow> nat \<Rightarrow> nat \<Rightarrow> cell list" where
  "live_cells a R C = concat (map (\<lambda>r. map (Pair r) (filter (\<lambda>c. a ! r ! c) [0 ..< C])) [0 ..< R])"

definition registry_keys :: "SoundManager \<Rightarrow> cell set" where
  "registry_keys sm = set (map fst (oscillators sm))"


text \<open>
  For the waveform change: the commands that start and stop an oscillator, the
  level an oscillator plays at, one pass of the loop of \<open>update_all_waveforms\<close>
  for a key, and the oscillator and the commands such a pass produces for a key
  that is in the registry.
\<close>

text \<open>
  The waveform a name stands for: the four names of the specification; under
  any other name a voice plays as a sine.
\<close>

definition named_waveform :: "string \<Rightarrow> waveform_class" where
  "named_waveform name =
     (if name = ''Sine'' then Sine
      else if name = ''Square'' then Square
      else if name = ''Sawtooth'' then Saw
      else if name = ''Triangle'' then Tri
      else Sine)"

definition is_lifecycle :: "command \<Rightarrow> bool" where
  "is_lifecycle cmd = (case cmd of OscOut k c f \<Rightarrow> True | OscStop k \<Rightarrow> True | _ \<Rightarrow> False)"

definition osc_amplitude :: "oscillator \<Rightarrow> real" where
  "osc_amplitude osc = (case osc_mul osc of Const a \<Rightarrow> a | Env e \<Rightarrow> fader_mul e)"

definition new_osc :: "SoundManager \<Rightarrow> Grid \<Rightarrow> cell \<Rightarrow> oscillator" where
  "new_osc s w k =
     \<lparr>osc_class = get_waveform_class (waveform s),
      osc_freq = spec_frequency (frequency_range s) (rows w) (cols w) (fst k) (snd k),
      osc_mul = (if smooth_transitions s then Env (Fader 0.5 0.5 0 (amplitude s))
                 else Const (amplitude s))\<rparr>"

definition restart_commands :: "SoundManager \<Rightarrow> Grid \<Rightarrow> cell \<Rightarrow> command list" where
  "restart_commands s w k =
     (if smooth_transitions s \<and> has_key (envelopes s) k then [FaderStop k] else [])
     @ [OscStop k,
        OscOut k (get_waveform_class (waveform s))
          (spec_frequency (frequency_range s) (rows w) (cols w) (fst k) (snd k))]
     @ (if smooth_transitions s then [FaderPlay k (Fader 0.5 0.5 0 (amplitude s))] else [])"

definition restart :: "Grid \<Rightarrow> cell \<Rightarrow> SoundManager \<Rightarrow> py_error + SoundManager" where
  "restart w key sm = (case key of (row, col) \<Rightarrow> play_sound (stop_sound sm row col) w row col)"


section \<open>Example states\<close>

definition example_grid :: Grid where
  "example_grid =
     \<lparr>rows = 3, cols = 3,
      grid = [[True, True, False], [False, False, False], [False, True, False]],
      birth = [3], survival = [2, 3]\<rparr>"

definition full_grid :: Grid where
  "full_grid = (init_grid 2 2)\<lparr>grid := [[True, True], [True, True]]\<rparr>"

definition blinker5 :: Grid where
  "blinker5 = (init_grid 5 5)\<lparr>grid :=
     [[False, False, False, False, False],
      [False, False, False, False, False],
      [False, True, True, True, False],
      [False, False, False, False, False],
      [False, False, False, False, False]]\<rparr>"

definition one_voice :: SoundManager where
  "one_voice = init_sound_manager
     \<lparr>oscillators := [((0, 0), \<lparr>osc_class = Sine, osc_freq = 200, osc_mul = Env (Fader 0.5 0.5 0 0.5)\<rparr>)],
      envelopes := [((0, 0), Fader 0.5 0.5 0 0.5)],
      commands := [ServerBoot, ServerStart, ServerSetMidi,
                   OscOut (0, 0) Sine 200, FaderPlay (0, 0) (Fader 0.5 0.5 0 0.5)]\<rparr>"

definition two_voices :: SoundManager where
  "two_voices = init_sound_manager
     \<lparr>oscillators :=
        [((0, 0), \<lparr>osc_class = Sine, osc_freq = 200, osc_mul = Env (Fader 0.5 0.5 0 0.5)\<rparr>),
         ((0, 1), \<lparr>osc_class = Sine, osc_freq = 600, osc_mul = Env (Fader 0.5 0.5 0 0.5)\<rparr>)],
      envelopes := [((0, 0), Fader 0.5 0.5 0 0.5), ((0, 1), Fader 0.5 0.5 0 0.5)],
      commands := [ServerBoot, ServerStart, ServerSetMidi,
                   OscOut (0, 0) Sine 200, FaderPlay (0, 0) (Fader 0.5 0.5 0 0.5),
                   OscOut (0, 1) Sine 600, FaderPlay (0, 1) (Fader 0.5 0.5 0 0.5)]\<rparr>"

section \<open>One generation\<close>

lemma fold_count: "fold (\<lambda>j count. if P j then count + 1 else count) xs (n::nat) = n + length (filter P xs)"
  by (induction xs arbitrary: n) auto

lemma fold_add: "fold (\<lambda>i count. count + f i) xs (n::nat) = n + sum_list (map f xs)"
  by (induction xs arbitrary: n) auto

lemma upt_around: "r < R \<Longrightarrow> [r - 1 ..< min R (r + 2)] =
    (if 0 < r then [r - 1] else []) @ [r] @ (if r + 1 < R then [r + 1] else [])"
  by (cases r) (auto simp: upt_rec min_def)

lemma count_alt: "count_alive_neighbors g row col =
   sum_list (map (\<lambda>i. length (filter (\<lambda>j. (i \<noteq> row \<or> j \<noteq> col) \<and> grid g ! i ! j) [col - 1 ..< min (cols g) (col + 2)]))
      [row - 1 ..< min (rows g) (row + 2)])"
  unfolding count_alive_neighbors_def fold_count fold_add by simp

lemma len_filter: "length (filter P xs) = (\<Sum>x\<leftarrow>xs. of_bool (P x))"
  by (induction xs) auto

lemma count_eq_moore:
  assumes "r < rows g" "c < cols g"
  shows "count_alive_neighbors g r c = moore_count g r c"
proof -
  have *: "nat (int r - 1) = r - 1" "nat (int c - 1) = c - 1" 
     "nat (int r + 1) = r + 1" "nat (int c + 1) = c + 1" by auto
  show ?thesis
    unfolding count_alt upt_around[OF assms(1)] upt_around[OF assms(2)] moore_count_def len_filter moore_offsets_def alive_at_def
    using assms
    apply (cases "0 < r"; cases "0 < c"; cases "r + 1 < rows g"; cases "c + 1 < cols g")
                   apply (simp_all add: *)
               apply auto
    done
qed

lemma next_cell_spec: "r < rows g \<Longrightarrow> c < cols g \<Longrightarrow> next_cell g r c = spec_next g r c"
  by (simp add: next_cell_def spec_next_def count_eq_moore)

lemma shape_set2: "map length (set2 a r c v) = map length a"
  by (cases "r < length a") (simp_all add: set2_def map_update list_update_same_conv list_update_beyond)

lemma nth_set2:
  "r < length a \<Longrightarrow> c < length (a ! r) \<Longrightarrow> set2 a r c v ! i ! j = (if i = r \<and> j = c then v else a ! i ! j)"
  by (auto simp: set2_def nth_list_update)

lemma shape_update_cell: "map length (update_cell g ng row col) = map length ng"
  by (simp add: update_cell_def Let_def shape_set2)

lemma nth_update_cell:
  assumes "row < length ng" "col < length (ng ! row)" "ng ! row ! col = grid g ! row ! col"
  shows "update_cell g ng row col ! i ! j = (if i = row \<and> j = col then next_cell g row col else ng ! i ! j)"
  using assms by (auto simp: update_cell_def Let_def nth_set2 next_cell_def)

lemma shape_nth: "map length a = map length b \<Longrightarrow> length a = length b \<and> (\<forall>i < length a. length (a ! i) = length (b ! i))"
  by (metis length_map nth_map)

lemma fold_cols:
  assumes "row < length ng" "\<forall>c \<in> set cs. c < length (ng ! row) \<and> ng ! row ! c = grid g ! row ! c" "distinct cs"
  shows "map length (fold (\<lambda>col new_grid. update_cell g new_grid row col) cs ng) = map length ng \<and>
         (\<forall>i j. fold (\<lambda>col new_grid. update_cell g new_grid row col) cs ng ! i ! j =
                (if i = row \<and> j \<in> set cs then next_cell g row j else ng ! i ! j))"
  using assms
proof (induction cs arbitrary: ng)
  case Nil
  then show ?case by simp
next
  case (Cons c cs)
  let ?ng = "update_cell g ng row c"
  have sh: "map length ?ng = map length ng" by (rule shape_update_cell)
  have c: "c < length (ng ! row)" "ng ! row ! c = grid g ! row ! c" "c \<notin> set cs"
    using Cons.prems by auto
  have nth: "\<And>i j. ?ng ! i ! j = (if i = row \<and> j = c then next_cell g row c else ng ! i ! j)"
    using nth_update_cell[OF Cons.prems(1) c(1) c(2)] by simp
  have len: "row < length ?ng" "length (?ng ! row) = length (ng ! row)"
    using shape_nth[OF sh] Cons.prems(1) by auto
  have pre: "\<forall>c' \<in> set cs. c' < length (?ng ! row) \<and> ?ng ! row ! c' = grid g ! row ! c'"
    using Cons.prems(2) c(3) len nth by auto
  have d: "distinct cs" using Cons.prems(3) by simp
  from Cons.IH[OF len(1) pre d] sh nth show ?case by auto
qed

lemma fold_rows:
  assumes "\<forall>r \<in> set rs. r < length ng \<and> n \<le> length (ng ! r) \<and> (\<forall>c < n. ng ! r ! c = grid g ! r ! c)" "distinct rs"
  shows "map length (fold (\<lambda>row new_grid. fold (\<lambda>col new_grid. update_cell g new_grid row col) [0 ..< n] new_grid) rs ng) = map length ng \<and>
         (\<forall>i j. fold (\<lambda>row new_grid. fold (\<lambda>col new_grid. update_cell g new_grid row col) [0 ..< n] new_grid) rs ng ! i ! j =
                (if i \<in> set rs \<and> j < n then next_cell g i j else ng ! i ! j))"
  using assms
proof (induction rs arbitrary: ng)
  case Nil
  then show ?case by simp
next
  case (Cons r rs)
  let ?ng = "fold (\<lambda>col new_grid. update_cell g new_grid r col) [0 ..< n] ng"
  have r: "r < length ng" "n \<le> length (ng ! r)" "\<forall>c < n. ng ! r ! c = grid g ! r ! c" "r \<notin> set rs"
    using Cons.prems by auto
  have inner: "map length ?ng = map length ng"
     "\<And>i j. ?ng ! i ! j = (if i = r \<and> j < n then next_cell g r j else ng ! i ! j)"
    using fold_cols[of r ng "[0 ..< n]" g] r by auto
  have pre: "\<forall>r' \<in> set rs. r' < length ?ng \<and> n \<le> length (?ng ! r') \<and> (\<forall>c < n. ?ng ! r' ! c = grid g ! r' ! c)"
    using Cons.prems(1) r(4) shape_nth[OF inner(1)] inner(2) by auto
  have d: "distinct rs" using Cons.prems(2) by simp
  from Cons.IH[OF pre d] inner show ?case by auto
qed

lemma grid_ok_nth: "grid_ok g \<Longrightarrow> r < rows g \<Longrightarrow> length (grid g ! r) = cols g"
  by (simp add: grid_ok_def list_all_length)

lemma grid_ok_shape: "grid_ok g \<longleftrightarrow> map length (grid g) = replicate (rows g) (cols g)"
  by (auto simp: grid_ok_def list_all_length list_eq_iff_nth_eq)

lemma update_grid_fields [simp]:
  "rows (update_grid g) = rows g" "cols (update_grid g) = cols g"
  "birth (update_grid g) = birth g" "survival (update_grid g) = survival g"
  by (simp_all add: update_grid_def)

lemma update_grid_cells:
  assumes "grid_ok g"
  shows "map length (grid (update_grid g)) = map length (grid g)"
    and "r < rows g \<Longrightarrow> c < cols g \<Longrightarrow> grid (update_grid g) ! r ! c = next_cell g r c"
proof -
  have pre: "\<forall>r \<in> set [0 ..< rows g]. r < length (grid g) \<and> cols g \<le> length (grid g ! r) \<and> (\<forall>c < cols g. grid g ! r ! c = grid g ! r ! c)"
    using assms grid_ok_nth[OF assms] by (auto simp: grid_ok_def)
  note f = fold_rows[OF pre distinct_upt]
  show "map length (grid (update_grid g)) = map length (grid g)"
    using f by (simp add: update_grid_def)
  show "r < rows g \<Longrightarrow> c < cols g \<Longrightarrow> grid (update_grid g) ! r ! c = next_cell g r c"
    using f by (simp add: update_grid_def)
qed

lemma init_grid_ok: "grid_ok (init_grid r c)"
  by (simp add: grid_ok_def init_grid_def zeros_def list_all_length)

lemma clear_grid_ok: "grid_ok (clear_grid g)"
  by (simp add: grid_ok_def clear_grid_def zeros_def list_all_length)

lemma set_rules_ok: "grid_ok g \<Longrightarrow> grid_ok (set_rules g b s)"
  by (simp add: grid_ok_def set_rules_def)

lemma update_grid_ok: "grid_ok g \<Longrightarrow> grid_ok (update_grid g)"
  using update_grid_cells(1)[of g] by (simp add: grid_ok_shape)

text \<open>
  C1. \<open>update_grid\<close> computes one synchronous generation: the neighbour count of
  every in-bounds cell is the number of live cells among its eight Moore
  neighbours in the grid as it was before the call, positions outside the grid
  counting as dead; a live cell whose count is not in \<open>survival\<close> dies, a dead
  cell whose count is in \<open>birth\<close> becomes alive, every other cell keeps its value;
  the result replaces the widget's array, and nothing else of the widget changes.
\<close>

theorem update_grid_synchronous:
  assumes "grid_ok g" "r < rows g" "c < cols g"
  shows "count_alive_neighbors g r c = moore_count g r c
       \<and> grid (update_grid g) ! r ! c = spec_next g r c
       \<and> grid_ok (update_grid g)
       \<and> rows (update_grid g) = rows g \<and> cols (update_grid g) = cols g
       \<and> birth (update_grid g) = birth g \<and> survival (update_grid g) = survival g"
  using assms update_grid_cells(2)[OF assms] 
  by (simp add: count_eq_moore next_cell_spec update_grid_ok)

theorem update_grid_synchronous_witness:
  "grid_ok example_grid \<and> (1::nat) < rows example_grid \<and> (1::nat) < cols example_grid
   \<and> moore_count example_grid 1 1 = 3 \<and> \<not> grid example_grid ! 1 ! 1 \<and> grid (update_grid example_grid) ! 1 ! 1"
  using update_grid_synchronous[of example_grid 1 1]
  by (simp add: example_grid_def grid_ok_def spec_next_def moore_count_def moore_offsets_def alive_at_def)


section \<open>The all-dead grid\<close>

lemma grid_eqI:
  assumes "map length a = map length b"
    and "\<And>i j. i < length a \<Longrightarrow> j < length (a ! i) \<Longrightarrow> a ! i ! j = b ! i ! j"
  shows "a = b"
proof (rule nth_equalityI)
  show "length a = length b" using shape_nth[OF assms(1)] by simp
  fix i assume i: "i < length a"
  show "a ! i = b ! i"
    using shape_nth[OF assms(1)] i assms(2)[OF i] by (auto intro: nth_equalityI)
qed

lemma zeros_shape: "map length (zeros r c) = replicate r c"
  by (simp add: zeros_def)

lemma zeros_nth: "i < r \<Longrightarrow> j < c \<Longrightarrow> zeros r c ! i ! j = False"
  by (simp add: zeros_def)

lemma moore_count_dead:
  assumes "grid g = zeros (rows g) (cols g)"
  shows "moore_count g r c = 0"
proof -
  have "\<not> alive_at g i j" for i j
    using assms by (auto simp: alive_at_def zeros_nth)
  then show ?thesis by (simp add: moore_count_def)
qed

lemma all_dead_step:
  assumes "grid g = zeros (rows g) (cols g)" "0 \<notin> set (birth g)"
  shows "grid (update_grid g) = zeros (rows g) (cols g)"
proof (rule grid_eqI)
  have ok: "grid_ok g" using assms(1) by (simp add: grid_ok_shape zeros_shape)
  show sh: "map length (grid (update_grid g)) = map length (zeros (rows g) (cols g))"
    using update_grid_cells(1)[OF ok] assms(1) by simp
  fix i j assume "i < length (grid (update_grid g))" "j < length (grid (update_grid g) ! i)"
  then have ij: "i < rows g" "j < cols g"
    using shape_nth[OF sh] by (auto simp: zeros_def)
  have "next_cell g i j = False"
    using ij assms by (simp add: next_cell_spec spec_next_def moore_count_dead zeros_nth)
  then show "grid (update_grid g) ! i ! j = zeros (rows g) (cols g) ! i ! j"
    using update_grid_cells(2)[OF ok ij] ij by (simp add: zeros_nth)
qed

text \<open>
  C5, as stated, fails: with 0 in the birth list every dead cell without live
  neighbours is born, so the one-cell all-dead grid comes alive.
\<close>

theorem all_dead_birth_zero_counterexample:
  "grid (set_rules (init_grid 1 1) [0] []) = zeros 1 1
   \<and> grid (update_grid (set_rules (init_grid 1 1) [0] [])) = [[True]]
   \<and> grid (update_grid (set_rules (init_grid 1 1) [0] [])) \<noteq> zeros 1 1"
  by (simp add: set_rules_def init_grid_def zeros_def update_grid_def update_cell_def
        count_alive_neighbors_def set2_def)

text \<open>
  C5, amended. For every rule set whose birth list does not hold 0, one step of
  an all-dead grid of any dimensions is the all-dead grid of the same
  dimensions.
\<close>

theorem all_dead_stays_dead:
  assumes "grid g = zeros (rows g) (cols g)" "0 \<notin> set (birth g)"
  shows "grid (update_grid g) = zeros (rows g) (cols g) \<and> rows (update_grid g) = rows g \<and> cols (update_grid g) = cols g"
  using all_dead_step[OF assms] by simp

theorem all_dead_stays_dead_witness:
  "grid (set_rules (init_grid 2 3) [1, 9] [0, 2]) = zeros 2 3 \<and> (0::int) \<notin> set [1, 9]
   \<and> grid (update_grid (set_rules (init_grid 2 3) [1, 9] [0, 2])) = [[False, False, False], [False, False, False]]"
  using all_dead_stays_dead[of "set_rules (init_grid 2 3) [1, 9] [0, 2]"]
  by (simp add: set_rules_def init_grid_def zeros_def numeral_2_eq_2 numeral_3_eq_3)


section \<open>Resizing\<close>

lemma assign_block_length: "length (assign_block dst m n src) = length dst"
  by (simp add: assign_block_def)

lemma assign_block_row:
  "i < length dst \<Longrightarrow> assign_block dst m n src ! i =
      (if i < m then take n (src ! i) @ drop n (dst ! i) else dst ! i)"
  by (simp add: assign_block_def)

lemma resize_cells:
  assumes ok: "grid_ok g" and r: "r < R" and c: "c < C"
  defines "a \<equiv> assign_block (zeros R C) (min (rows g) R) (min (cols g) C) (grid g)"
  shows "length (a ! r) = C"
    and "a ! r ! c = (if r < min (rows g) R \<and> c < min (cols g) C then grid g ! r ! c else False)"
proof -
  have z: "length (zeros R C) = R" "zeros R C ! r = replicate C False"
    using r by (simp_all add: zeros_def)
  have row: "a ! r = (if r < min (rows g) R then take (min (cols g) C) (grid g ! r) @ drop (min (cols g) C) (replicate C False)
                     else replicate C False)"
    unfolding a_def using r z by (simp add: assign_block_row)
  have len: "r < rows g \<Longrightarrow> length (grid g ! r) = cols g"
    using grid_ok_nth[OF ok] by simp
  show "length (a ! r) = C"
    using row len by (auto simp: min_def)
  show "a ! r ! c = (if r < min (rows g) R \<and> c < min (cols g) C then grid g ! r ! c else False)"
    using row len c by (auto simp: nth_append min_def)
qed

text \<open>
  C8. For a grid of dimensions \<open>(rows, cols)\<close> and new dimensions
  \<open>(new_rows, new_cols)\<close>, \<open>resize_grid\<close> returns without error a grid of exactly
  the new dimensions; a cell \<open>(r, c)\<close> with \<open>r < min rows new_rows\<close> and
  \<open>c < min cols new_cols\<close> keeps its old value, every other cell is dead. The rules
  are kept.
\<close>

theorem resize_grid_overlap:
  assumes "grid_ok g" "0 \<le> new_rows" "0 \<le> new_cols"
  shows "\<exists>g'. resize_grid g new_rows new_cols = Inr g'
           \<and> rows g' = nat new_rows \<and> cols g' = nat new_cols \<and> grid_ok g'
           \<and> birth g' = birth g \<and> survival g' = survival g
           \<and> (\<forall>r < nat new_rows. \<forall>c < nat new_cols.
                 grid g' ! r ! c =
                   (if r < min (rows g) (nat new_rows) \<and> c < min (cols g) (nat new_cols)
                    then grid g ! r ! c else False))"
proof -
  let ?a = "assign_block (zeros (nat new_rows) (nat new_cols)) (min (rows g) (nat new_rows))
              (min (cols g) (nat new_cols)) (grid g)"
  let ?g = "g\<lparr>rows := nat new_rows, cols := nat new_cols, grid := ?a\<rparr>"
  have eq: "resize_grid g new_rows new_cols = Inr ?g"
    using assms(2,3) by (simp add: resize_grid_def Let_def)
  have "length ?a = nat new_rows"
    by (simp add: assign_block_length zeros_def)
  moreover have "\<forall>r < nat new_rows. length (?a ! r) = nat new_cols"
  proof (intro allI impI)
    fix r assume r: "r < nat new_rows"
    show "length (?a ! r) = nat new_cols"
    proof (cases "nat new_cols")
      case 0
      then show ?thesis using r by (simp add: assign_block_row zeros_def)
    next
      case (Suc n)
      then have "0 < nat new_cols" by simp
      from resize_cells(1)[OF assms(1) r this] show ?thesis .
    qed
  qed
  ultimately have ok: "grid_ok ?g"
    by (simp add: grid_ok_def list_all_length)
  have cells: "\<forall>r < nat new_rows. \<forall>c < nat new_cols.
                 grid ?g ! r ! c =
                   (if r < min (rows g) (nat new_rows) \<and> c < min (cols g) (nat new_cols)
                    then grid g ! r ! c else False)"
    using resize_cells(2)[OF assms(1)] by simp
  show ?thesis
    unfolding eq using ok cells by simp
qed

theorem resize_grid_overlap_witness:
  "grid_ok full_grid \<and> (0::int) \<le> 3 \<and> (0::int) \<le> 1
   \<and> (\<exists>g'. resize_grid full_grid 3 1 = Inr g' \<and> rows g' = 3 \<and> cols g' = 1
          \<and> grid g' = [[True], [True], [False]])"
  using resize_grid_overlap[of full_grid 3 1]
  by (simp add: full_grid_def init_grid_def grid_ok_def resize_grid_def assign_block_def zeros_def
        numeral_3_eq_3 upt_rec)


section \<open>The blinker\<close>

lemma blinker_shapes:
  "map length (blinker_horizontal R C r c) = replicate R C"
  "map length (blinker_vertical R C r c) = replicate R C"
  by (simp_all add: blinker_horizontal_def blinker_vertical_def list_eq_iff_nth_eq)

lemma blinker_nth:
  "i < R \<Longrightarrow> j < C \<Longrightarrow> blinker_horizontal R C r c ! i ! j \<longleftrightarrow> i = r \<and> (j + 1 = c \<or> j = c \<or> j = c + 1)"
  "i < R \<Longrightarrow> j < C \<Longrightarrow> blinker_vertical R C r c ! i ! j \<longleftrightarrow> j = c \<and> (i + 1 = r \<or> i = r \<or> i = r + 1)"
  by (simp_all add: blinker_horizontal_def blinker_vertical_def)

lemma alive_at_horizontal:
  assumes "grid g = blinker_horizontal (rows g) (cols g) r c" "r < rows g" "0 < c" "c + 1 < cols g"
  shows "alive_at g a b \<longleftrightarrow> a = int r \<and> (b = int c - 1 \<or> b = int c \<or> b = int c + 1)"
  using assms by (auto simp: alive_at_def blinker_nth)

lemma alive_at_vertical:
  assumes "grid g = blinker_vertical (rows g) (cols g) r c" "c < cols g" "0 < r" "r + 1 < rows g"
  shows "alive_at g a b \<longleftrightarrow> b = int c \<and> (a = int r - 1 \<or> a = int r \<or> a = int r + 1)"
  using assms by (auto simp: alive_at_def blinker_nth)

lemma five_cases: "int i \<le> int r - 2 \<or> int i = int r - 1 \<or> i = r \<or> int i = int r + 1 \<or> int r + 2 \<le> int i"
  by linarith

lemma spec_next_horizontal:
  assumes g: "grid g = blinker_horizontal (rows g) (cols g) r c"
    and b: "0 < r" "r + 1 < rows g" "0 < c" "c + 1 < cols g"
    and rules: "set (birth g) = {3}" "set (survival g) = {2, 3}"
    and ij: "i < rows g" "j < cols g"
  shows "spec_next g i j \<longleftrightarrow> j = c \<and> (i + 1 = r \<or> i = r \<or> i = r + 1)"
proof -
  have r: "r < rows g" using b by simp
  note al = alive_at_horizontal[OF g r b(3,4)]
  have cell: "grid g ! i ! j \<longleftrightarrow> i = r \<and> (j + 1 = c \<or> j = c \<or> j = c + 1)"
    using g ij blinker_nth(1)[OF ij] by simp
  show ?thesis
    unfolding spec_next_def moore_count_def moore_offsets_def cell rules
    using five_cases[of i r] five_cases[of j c]
    by (elim disjE) (simp_all add: al)
qed


lemma spec_next_vertical:
  assumes g: "grid g = blinker_vertical (rows g) (cols g) r c"
    and b: "0 < r" "r + 1 < rows g" "0 < c" "c + 1 < cols g"
    and rules: "set (birth g) = {3}" "set (survival g) = {2, 3}"
    and ij: "i < rows g" "j < cols g"
  shows "spec_next g i j \<longleftrightarrow> i = r \<and> (j + 1 = c \<or> j = c \<or> j = c + 1)"
proof -
  have c: "c < cols g" using b by simp
  note al = alive_at_vertical[OF g c b(1,2)]
  have cell: "grid g ! i ! j \<longleftrightarrow> j = c \<and> (i + 1 = r \<or> i = r \<or> i = r + 1)"
    using g ij blinker_nth(2)[OF ij] by simp
  show ?thesis
    unfolding spec_next_def moore_count_def moore_offsets_def cell rules
    using five_cases[of i r] five_cases[of j c]
    by (elim disjE) (simp_all add: al)
qed

lemma step_horizontal:
  assumes g: "grid g = blinker_horizontal (rows g) (cols g) r c"
    and b: "0 < r" "r + 1 < rows g" "0 < c" "c + 1 < cols g"
    and rules: "set (birth g) = {3}" "set (survival g) = {2, 3}"
  shows "grid (update_grid g) = blinker_vertical (rows g) (cols g) r c"
proof (rule grid_eqI)
  have ok: "grid_ok g" using g by (simp add: grid_ok_shape blinker_shapes)
  show sh: "map length (grid (update_grid g)) = map length (blinker_vertical (rows g) (cols g) r c)"
    using update_grid_cells(1)[OF ok] g by (simp add: blinker_shapes)
  fix i j assume "i < length (grid (update_grid g))" "j < length (grid (update_grid g) ! i)"
  then have ij: "i < rows g" "j < cols g"
    using shape_nth[OF sh] by (auto simp: blinker_vertical_def)
  show "grid (update_grid g) ! i ! j = blinker_vertical (rows g) (cols g) r c ! i ! j"
    using update_grid_cells(2)[OF ok ij] spec_next_horizontal[OF g b rules ij] ij
    by (simp add: next_cell_spec blinker_nth)
qed

lemma step_vertical:
  assumes g: "grid g = blinker_vertical (rows g) (cols g) r c"
    and b: "0 < r" "r + 1 < rows g" "0 < c" "c + 1 < cols g"
    and rules: "set (birth g) = {3}" "set (survival g) = {2, 3}"
  shows "grid (update_grid g) = blinker_horizontal (rows g) (cols g) r c"
proof (rule grid_eqI)
  have ok: "grid_ok g" using g by (simp add: grid_ok_shape blinker_shapes)
  show sh: "map length (grid (update_grid g)) = map length (blinker_horizontal (rows g) (cols g) r c)"
    using update_grid_cells(1)[OF ok] g by (simp add: blinker_shapes)
  fix i j assume "i < length (grid (update_grid g))" "j < length (grid (update_grid g) ! i)"
  then have ij: "i < rows g" "j < cols g"
    using shape_nth[OF sh] by (auto simp: blinker_horizontal_def)
  show "grid (update_grid g) ! i ! j = blinker_horizontal (rows g) (cols g) r c ! i ! j"
    using update_grid_cells(2)[OF ok ij] spec_next_vertical[OF g b rules ij] ij
    by (simp add: next_cell_spec blinker_nth)
qed

lemma update_grid_record: "update_grid g = g\<lparr>grid := grid (update_grid g)\<rparr>"
  by (simp add: update_grid_def)

lemma blinker_phases_differ:
  assumes "0 < r" "r < R" "c + 1 < C"
  shows "blinker_vertical R C r c \<noteq> blinker_horizontal R C r c"
proof
  assume eq: "blinker_vertical R C r c = blinker_horizontal R C r c"
  have "blinker_horizontal R C r c ! r ! (c + 1)" using assms by (simp add: blinker_nth)
  moreover have "\<not> blinker_vertical R C r c ! r ! (c + 1)" using assms by (simp add: blinker_nth)
  ultimately show False using eq by simp
qed

text \<open>
  C9. Under birth \<open>{3}\<close> and survival \<open>{2, 3}\<close>, a grid that holds exactly a
  horizontal blinker whose centre \<open>(r, c)\<close> is not on the boundary is back in its
  original configuration after two steps and is not after one step, where it
  holds the vertical blinker.
\<close>

theorem blinker_period_two:
  assumes "set (birth g) = {3}" "set (survival g) = {2, 3}"
    and "grid g = blinker_horizontal (rows g) (cols g) r c"
    and "0 < r" "r + 1 < rows g" "0 < c" "c + 1 < cols g"
  shows "update_grid (update_grid g) = g
       \<and> update_grid g \<noteq> g
       \<and> grid (update_grid g) = blinker_vertical (rows g) (cols g) r c"
proof -
  let ?g1 = "update_grid g"
  have s1: "grid ?g1 = blinker_vertical (rows g) (cols g) r c"
    using step_horizontal[OF assms(3-7) assms(1,2)] .
  have s2: "grid (update_grid ?g1) = blinker_horizontal (rows ?g1) (cols ?g1) r c"
    by (rule step_vertical) (use assms s1 in simp_all)
  have ret: "update_grid ?g1 = g"
    using s2 assms(3) by (simp add: update_grid_def)
  have "grid ?g1 \<noteq> grid g"
    using s1 assms(3) blinker_phases_differ[of r "rows g" c "cols g"] assms(4,5,7) by simp
  then have "?g1 \<noteq> g" by auto
  with ret s1 show ?thesis by simp
qed

lemma blinker5_is: "grid blinker5 = blinker_horizontal 5 5 2 2"
  by (simp add: blinker5_def blinker_horizontal_def upt_rec)

theorem blinker_period_two_witness:
  "set (birth blinker5) = {3} \<and> set (survival blinker5) = {2, 3}
   \<and> grid blinker5 = blinker_horizontal (rows blinker5) (cols blinker5) 2 2
   \<and> update_grid (update_grid blinker5) = blinker5
   \<and> update_grid blinker5 \<noteq> blinker5
   \<and> grid (update_grid blinker5) =
     [[False, False, False, False, False],
      [False, False, True, False, False],
      [False, False, True, False, False],
      [False, False, True, False, False],
      [False, False, False, False, False]]"
proof -
  have f: "rows blinker5 = 5" "cols blinker5 = 5" "birth blinker5 = [3]" "survival blinker5 = [2, 3]"
    by (simp_all add: blinker5_def init_grid_def)
  have v: "blinker_vertical 5 5 2 2 = [[False, False, False, False, False],
      [False, False, True, False, False],
      [False, False, True, False, False],
      [False, False, True, False, False],
      [False, False, False, False, False]]"
    by (simp add: blinker_vertical_def upt_rec)
  show ?thesis
    using blinker_period_two[of blinker5 2 2] by (simp add: f blinker5_is v)
qed


section \<open>The frequency mapping and shutdown\<close>

lemma calculate_frequency_eq:
  assumes "0 < rows w" "0 < cols w"
  shows "calculate_frequency sm w row col = Inr (spec_frequency (frequency_range sm) (rows w) (cols w) row col)"
  using assms by (simp add: calculate_frequency_def spec_frequency_def Let_def split_beta)

text \<open>
  C6. On a grid with at least one row and one column \<open>calculate_frequency\<close> is the
  function \<open>fmin + (fmax - fmin) * (col / cols) + 0.5 * (fmax - fmin) * (row / rows)\<close>
  of the cell, the current range and the current grid dimensions; with the range
  \<open>(200, 1000)\<close> on a 20 by 20 grid the cell \<open>(0, 0)\<close> maps to 200 and the cell
  \<open>(19, 19)\<close> to 1340.
\<close>

theorem calculate_frequency_formula:
  "(0 < rows w \<and> 0 < cols w \<longrightarrow>
      calculate_frequency sm w row col =
        Inr (spec_frequency (frequency_range sm) (rows w) (cols w) row col))
   \<and> calculate_frequency (sm\<lparr>frequency_range := (200, 1000)\<rparr>) (init_grid 20 20) 0 0 = Inr 200
   \<and> calculate_frequency (sm\<lparr>frequency_range := (200, 1000)\<rparr>) (init_grid 20 20) 19 19 = Inr 1340"
proof (intro conjI impI)
  assume "0 < rows w \<and> 0 < cols w"
  then show "calculate_frequency sm w row col =
               Inr (spec_frequency (frequency_range sm) (rows w) (cols w) row col)"
    by (simp add: calculate_frequency_def spec_frequency_def Let_def split_beta)
next
  show "calculate_frequency (sm\<lparr>frequency_range := (200, 1000)\<rparr>) (init_grid 20 20) 0 0 = Inr 200"
    by (simp add: calculate_frequency_def init_grid_def)
next
  show "calculate_frequency (sm\<lparr>frequency_range := (200, 1000)\<rparr>) (init_grid 20 20) 19 19 = Inr 1340"
    by (simp add: calculate_frequency_def init_grid_def)
qed

theorem calculate_frequency_formula_witness:
  "0 < rows (init_grid 4 8) \<and> 0 < cols (init_grid 4 8)
   \<and> calculate_frequency (init_sound_manager\<lparr>frequency_range := (100, 500)\<rparr>) (init_grid 4 8) 1 2 = Inr 250"
  using calculate_frequency_formula[of "init_grid 4 8" "init_sound_manager\<lparr>frequency_range := (100, 500)\<rparr>" 1 2]
  by (simp add: init_grid_def init_sound_manager_def spec_frequency_def)

text \<open>
  C3, as stated, fails: after \<open>shutdown\<close> a manager that holds one voice still
  holds it, and no stop command for that voice was issued.
\<close>

theorem shutdown_registry_counterexample:
  "play_sound init_sound_manager (init_grid 2 2) 0 0 = Inr one_voice
   \<and> map fst (oscillators (shutdown one_voice)) = [(0, 0)]
   \<and> oscillators (shutdown one_voice) \<noteq> []
   \<and> OscStop (0, 0) \<notin> set (commands (shutdown one_voice))"
  by (simp add: play_sound_def has_key_def calculate_frequency_def init_grid_def
        init_sound_manager_def get_waveform_class_def emit_def one_voice_def shutdown_def Let_def)

text \<open>
  C3, amended. \<open>shutdown\<close> issues the single command that stops the server and
  no command for any voice, and leaves the registry and the envelopes as they
  were; a second call in succession issues the server stop once more and again
  leaves the registry as it was.
\<close>

theorem shutdown_only_stops_server:
  "oscillators (shutdown sm) = oscillators sm
   \<and> envelopes (shutdown sm) = envelopes sm
   \<and> commands (shutdown sm) = commands sm @ [ServerStop]
   \<and> oscillators (shutdown (shutdown sm)) = oscillators sm
   \<and> commands (shutdown (shutdown sm)) = commands sm @ [ServerStop, ServerStop]"
  by (simp add: shutdown_def emit_def)


section \<open>Reconciling the registry\<close>

lemma has_key_keys: "has_key (oscillators sm) k \<longleftrightarrow> k \<in> registry_keys sm"
  by (simp add: has_key_def registry_keys_def)

lemma play_sound_keys:
  assumes "0 < rows w" "0 < cols w"
  shows "\<exists>sm'. play_sound sm w row col = Inr sm' \<and> registry_keys sm' = insert (row, col) (registry_keys sm)"
proof (cases "has_key (oscillators sm) (row, col)")
  case True
  then show ?thesis by (auto simp: play_sound_def has_key_keys)
next
  case False
  then show ?thesis
    using assms
    by (simp add: play_sound_def calculate_frequency_eq Let_def emit_def registry_keys_def AList.dom_update)
qed

lemma keys_delete: "set (map fst (AList.delete k al)) = set (map fst al) - {k}"
  by (simp add: AList.delete_keys)

lemma stop_sound_oscillators:
  "oscillators (stop_sound sm row col) = AList.delete (row, col) (oscillators sm)"
proof (cases "has_key (oscillators sm) (row, col)")
  case True
  then show ?thesis by (simp add: stop_sound_def Let_def emit_def)
next
  case False
  then have "AList.delete (row, col) (oscillators sm) = oscillators sm"
    by (simp add: has_key_def)
  with False show ?thesis by (simp add: stop_sound_def)
qed

lemma stop_sound_keys: "registry_keys (stop_sound sm row col) = registry_keys sm - {(row, col)}"
  unfolding registry_keys_def stop_sound_oscillators by (rule keys_delete)

lemma getitem2_cases:
  "getitem2 a row col = (if in_range2 a row col then Inr (a ! row ! col) else Inl IndexError)"
  by (simp add: getitem2_def in_range2_def)

lemma cell_fails:
  "\<not> (in_range2 p row col \<and> in_range2 c row col) \<Longrightarrow> update_sounds_cell w p c row col sm = Inl IndexError"
  by (auto simp: update_sounds_cell_def getitem2_cases)

lemma cell_keys:
  assumes "in_range2 p row col" "in_range2 c row col" "0 < rows w" "0 < cols w"
  shows "\<exists>sm'. update_sounds_cell w p c row col sm = Inr sm' \<and>
           registry_keys sm' =
             (if \<not> p ! row ! col \<and> c ! row ! col then insert (row, col) (registry_keys sm)
              else if p ! row ! col \<and> \<not> c ! row ! col then registry_keys sm - {(row, col)}
              else registry_keys sm)"
  using assms play_sound_keys[OF assms(3,4), of sm row col]
  by (auto simp: update_sounds_cell_def getitem2_cases stop_sound_keys)

lemma for_each_cases:
  assumes "\<forall>x \<in> set xs. \<forall>s. (good x \<longrightarrow> (\<exists>s'. body x s = Inr s')) \<and> (\<not> good x \<longrightarrow> body x s = Inl e)"
  shows "(list_all good xs \<longrightarrow> (\<exists>s'. for_each body xs s = Inr s'))
       \<and> (\<not> list_all good xs \<longrightarrow> for_each body xs s = Inl e)"
  using assms
proof (induction xs arbitrary: s)
  case Nil
  then show ?case by simp
next
  case (Cons x xs)
  show ?case
  proof (cases "good x")
    case True
    then obtain s' where s': "body x s = Inr s'" using Cons.prems by fastforce
    have "\<forall>x \<in> set xs. \<forall>s. (good x \<longrightarrow> (\<exists>s'. body x s = Inr s')) \<and> (\<not> good x \<longrightarrow> body x s = Inl e)"
      using Cons.prems by simp
    from Cons.IH[OF this, of s'] True s' show ?thesis by simp
  next
    case False
    then have "body x s = Inl e" using Cons.prems by simp
    then show ?thesis using False by simp
  qed
qed

lemmas sound_defs = update_sounds_def update_sounds_cell_def getitem2_def play_sound_def
  stop_sound_def has_key_def calculate_frequency_def get_waveform_class_def emit_def Let_def

text \<open>
  C4, as stated, fails. Two voices are started on a 1 by 2 grid; the widget is
  then shrunk to 1 by 1, and \<open>update_sounds\<close> is called with the old 1 by 2 array
  and the new 1 by 1 array. The call returns normally, and the voice of the cell
  \<open>(0, 1)\<close> stays in the registry although the current grid has no live cell.
\<close>

theorem update_sounds_mismatch_counterexample:
  "update_sounds init_sound_manager (init_grid 1 2) [[False, False]] [[True, True]] = Inr two_voices
   \<and> update_sounds two_voices (init_grid 1 1) [[True, True]] [[False]] =
       Inr (two_voices
             \<lparr>oscillators :=
                [((0, 1), \<lparr>osc_class = Sine, osc_freq = 600, osc_mul = Env (Fader 0.5 0.5 0 0.5)\<rparr>)],
              envelopes := [((0, 1), Fader 0.5 0.5 0 0.5)],
              commands := commands two_voices @ [FaderStop (0, 0), OscStop (0, 0)]\<rparr>)
   \<and> live_cells [[False]] 1 1 = []"
  by (simp add: sound_defs init_grid_def init_sound_manager_def two_voices_def live_cells_def upt_rec)

text \<open>
  C4, amended. \<open>update_sounds\<close> checks no dimensions. It raises \<open>IndexError\<close>
  exactly when some index \<open>(row, col)\<close> with \<open>row < rows\<close> and \<open>col < cols\<close> of the
  manager's grid is out of range for one of the two arrays; when both arrays
  cover that rectangle, of equal dimensions or not, it returns normally.
\<close>

theorem update_sounds_index_error:
  "(covers previous_grid (rows w) (cols w) \<and> covers current_grid (rows w) (cols w)
      \<longrightarrow> (\<exists>sm'. update_sounds sm w previous_grid current_grid = Inr sm'))
   \<and> (\<not> (covers previous_grid (rows w) (cols w) \<and> covers current_grid (rows w) (cols w))
      \<longrightarrow> update_sounds sm w previous_grid current_grid = Inl IndexError)"
proof -
  define good where "good row col \<longleftrightarrow> in_range2 previous_grid row col \<and> in_range2 current_grid row col" for row col
  define goodrow where "goodrow row \<longleftrightarrow> list_all (good row) [0 ..< cols w]" for row
  have inner: "(goodrow row \<longrightarrow> (\<exists>s'. for_each (update_sounds_cell w previous_grid current_grid row) [0 ..< cols w] s = Inr s'))
       \<and> (\<not> goodrow row \<longrightarrow> for_each (update_sounds_cell w previous_grid current_grid row) [0 ..< cols w] s = Inl IndexError)"
    if "row < rows w" for row s
    unfolding goodrow_def
  proof (rule for_each_cases, intro ballI allI conjI impI)
    fix col s assume col: "col \<in> set [0 ..< cols w]" and g: "good row col"
    have "0 < rows w" "0 < cols w" using that col by auto
    from cell_keys[OF _ _ this, of previous_grid row col current_grid s] g
    show "\<exists>s'. update_sounds_cell w previous_grid current_grid row col s = Inr s'" by (auto simp: good_def)
  next
    fix col s assume "\<not> good row col"
    then show "update_sounds_cell w previous_grid current_grid row col s = Inl IndexError"
      by (simp add: cell_fails good_def)
  qed
  have outer: "(list_all goodrow [0 ..< rows w] \<longrightarrow> (\<exists>sm'. update_sounds sm w previous_grid current_grid = Inr sm'))
       \<and> (\<not> list_all goodrow [0 ..< rows w] \<longrightarrow> update_sounds sm w previous_grid current_grid = Inl IndexError)"
    unfolding update_sounds_def
    by (rule for_each_cases) (use inner in auto)
  have "list_all goodrow [0 ..< rows w] \<longleftrightarrow> covers previous_grid (rows w) (cols w) \<and> covers current_grid (rows w) (cols w)"
    by (auto simp: goodrow_def good_def covers_def list_all_iff)
  with outer show ?thesis by simp
qed

theorem update_sounds_index_error_witness:
  "covers [[True, True], [False, True]] (rows (init_grid 1 1)) (cols (init_grid 1 1))
   \<and> covers [[False]] (rows (init_grid 1 1)) (cols (init_grid 1 1))
   \<and> (\<exists>sm'. update_sounds init_sound_manager (init_grid 1 1) [[True, True], [False, True]] [[False]] = Inr sm')
   \<and> \<not> covers [[True]] (rows (init_grid 1 2)) (cols (init_grid 1 2))
   \<and> update_sounds init_sound_manager (init_grid 1 2) [[True]] [[True, True]] = Inl IndexError"
  using update_sounds_index_error[of "[[True, True], [False, True]]" "init_grid 1 1" "[[False]]" init_sound_manager]
        update_sounds_index_error[of "[[True]]" "init_grid 1 2" "[[True, True]]" init_sound_manager]
  by (simp add: covers_def in_range2_def init_grid_def upt_rec)

lemma set_live_cells: "set (live_cells a R C) = {k. fst k < R \<and> snd k < C \<and> a ! fst k ! snd k}"
  by (auto simp: live_cells_def)

lemma has_shape_in_range: "has_shape a R C \<Longrightarrow> r < R \<Longrightarrow> c < C \<Longrightarrow> in_range2 a r c"
  by (simp add: has_shape_def in_range2_def list_all_length)

lemma inner_keys:
  assumes "row < rows w" "distinct cs"
    and "\<forall>c \<in> set cs. c < cols w \<and> in_range2 p row c \<and> in_range2 cur row c"
    and "\<forall>c \<in> set cs. ((row, c) \<in> registry_keys sm \<longleftrightarrow> p ! row ! c)"
  shows "\<exists>sm'. for_each (update_sounds_cell w p cur row) cs sm = Inr sm' \<and>
           registry_keys sm' =
             {k. if fst k = row \<and> snd k \<in> set cs then cur ! row ! snd k else k \<in> registry_keys sm}"
  using assms(2-)
proof (induction cs arbitrary: sm)
  case Nil
  then show ?case by simp
next
  case (Cons c cs)
  have c: "c < cols w" "in_range2 p row c" "in_range2 cur row c" "c \<notin> set cs"
      "(row, c) \<in> registry_keys sm \<longleftrightarrow> p ! row ! c"
    using Cons.prems by auto
  have pos: "0 < rows w" "0 < cols w" using assms(1) c(1) by auto
  from cell_keys[OF c(2,3) pos, of sm] obtain sm1 where
    sm1: "update_sounds_cell w p cur row c sm = Inr sm1"
    and k1: "registry_keys sm1 =
             (if \<not> p ! row ! c \<and> cur ! row ! c then insert (row, c) (registry_keys sm)
              else if p ! row ! c \<and> \<not> cur ! row ! c then registry_keys sm - {(row, c)}
              else registry_keys sm)"
    by blast
  have k1': "\<And>k. k \<in> registry_keys sm1 \<longleftrightarrow> (if k = (row, c) then cur ! row ! c else k \<in> registry_keys sm)"
    using k1 c(5) by auto
  have pre: "\<forall>c' \<in> set cs. ((row, c') \<in> registry_keys sm1 \<longleftrightarrow> p ! row ! c')"
    using Cons.prems(3) c(4) k1' by auto
  have "distinct cs" "\<forall>c \<in> set cs. c < cols w \<and> in_range2 p row c \<and> in_range2 cur row c"
    using Cons.prems by auto
  from Cons.IH[OF this pre] obtain sm' where
    sm': "for_each (update_sounds_cell w p cur row) cs sm1 = Inr sm'"
    and k': "registry_keys sm' =
             {k. if fst k = row \<and> snd k \<in> set cs then cur ! row ! snd k else k \<in> registry_keys sm1}"
    by blast
  have "registry_keys sm' =
          {k. if fst k = row \<and> snd k \<in> set (c # cs) then cur ! row ! snd k else k \<in> registry_keys sm}"
    unfolding k' using k1' by (auto split: if_splits)
  with sm1 sm' show ?case by simp
qed

lemma outer_keys:
  assumes "distinct rs"
    and "\<forall>r \<in> set rs. r < rows w \<and> (\<forall>c < cols w. in_range2 p r c \<and> in_range2 cur r c)"
    and "\<forall>r \<in> set rs. \<forall>c < cols w. ((r, c) \<in> registry_keys sm \<longleftrightarrow> p ! r ! c)"
  shows "\<exists>sm'. for_each (\<lambda>row. for_each (update_sounds_cell w p cur row) [0 ..< cols w]) rs sm = Inr sm' \<and>
           registry_keys sm' =
             {k. if fst k \<in> set rs \<and> snd k < cols w then cur ! fst k ! snd k else k \<in> registry_keys sm}"
  using assms
proof (induction rs arbitrary: sm)
  case Nil
  then show ?case by simp
next
  case (Cons r rs)
  have r: "r < rows w" "r \<notin> set rs" using Cons.prems by auto
  have in1: "\<forall>c \<in> set [0 ..< cols w]. c < cols w \<and> in_range2 p r c \<and> in_range2 cur r c"
    using Cons.prems(2) by simp
  have in2: "\<forall>c \<in> set [0 ..< cols w]. ((r, c) \<in> registry_keys sm \<longleftrightarrow> p ! r ! c)"
    using Cons.prems(3) by simp
  from inner_keys[OF r(1) distinct_upt in1 in2] obtain sm1 where
    sm1: "for_each (update_sounds_cell w p cur r) [0 ..< cols w] sm = Inr sm1"
    and k1: "registry_keys sm1 =
             {k. if fst k = r \<and> snd k \<in> set [0 ..< cols w] then cur ! r ! snd k else k \<in> registry_keys sm}"
    by blast
  have pre: "\<forall>r' \<in> set rs. \<forall>c < cols w. ((r', c) \<in> registry_keys sm1 \<longleftrightarrow> p ! r' ! c)"
    using Cons.prems(3) r(2) unfolding k1 by auto
  have "distinct rs" "\<forall>r \<in> set rs. r < rows w \<and> (\<forall>c < cols w. in_range2 p r c \<and> in_range2 cur r c)"
    using Cons.prems by auto
  from Cons.IH[OF this pre] obtain sm' where
    sm': "for_each (\<lambda>row. for_each (update_sounds_cell w p cur row) [0 ..< cols w]) rs sm1 = Inr sm'"
    and k': "registry_keys sm' =
             {k. if fst k \<in> set rs \<and> snd k < cols w then cur ! fst k ! snd k else k \<in> registry_keys sm1}"
    by blast
  have "registry_keys sm' =
          {k. if fst k \<in> set (r # rs) \<and> snd k < cols w then cur ! fst k ! snd k else k \<in> registry_keys sm}"
    unfolding k' k1 by (auto split: if_splits)
  with sm1 sm' show ?case by simp
qed

lemma update_sounds_keys:
  assumes "has_shape p (rows w) (cols w)" "has_shape cur (rows w) (cols w)"
    and "registry_keys sm = set (live_cells p (rows w) (cols w))"
  shows "\<exists>sm'. update_sounds sm w p cur = Inr sm' \<and>
           registry_keys sm' = set (live_cells cur (rows w) (cols w))"
proof -
  have a: "\<forall>r \<in> set [0 ..< rows w]. r < rows w \<and> (\<forall>c < cols w. in_range2 p r c \<and> in_range2 cur r c)"
    using assms(1,2) by (simp add: has_shape_in_range)
  have b: "\<forall>r \<in> set [0 ..< rows w]. \<forall>c < cols w. ((r, c) \<in> registry_keys sm \<longleftrightarrow> p ! r ! c)"
    by (simp add: assms(3) set_live_cells)
  from outer_keys[OF distinct_upt a b] obtain sm' where
    sm': "update_sounds sm w p cur = Inr sm'"
    and k': "registry_keys sm' =
             {k. if fst k \<in> set [0 ..< rows w] \<and> snd k < cols w then cur ! fst k ! snd k else k \<in> registry_keys sm}"
    unfolding update_sounds_def by blast
  have "registry_keys sm' = set (live_cells cur (rows w) (cols w))"
    unfolding k' assms(3) set_live_cells by auto
  with sm' show ?thesis by simp
qed

lemma run_generations_keys:
  assumes "has_shape p (rows w) (cols w)" "list_all (\<lambda>g. has_shape g (rows w) (cols w)) gens"
    and "registry_keys sm = set (live_cells p (rows w) (cols w))"
  shows "\<exists>sm'. run_generations sm w p gens = Inr sm' \<and>
           registry_keys sm' = set (live_cells (last (p # gens)) (rows w) (cols w))"
  using assms
proof (induction gens arbitrary: sm p)
  case Nil
  then show ?case by simp
next
  case (Cons cur gens)
  have cur: "has_shape cur (rows w) (cols w)" "list_all (\<lambda>g. has_shape g (rows w) (cols w)) gens"
    using Cons.prems(2) by simp_all
  from update_sounds_keys[OF Cons.prems(1) cur(1) Cons.prems(3)] obtain sm1 where
    sm1: "update_sounds sm w p cur = Inr sm1"
      "registry_keys sm1 = set (live_cells cur (rows w) (cols w))"
    by blast
  from Cons.IH[OF cur(1) cur(2) sm1(2)] sm1(1) show ?case by simp
qed

text \<open>
  C2. If the registry's keys are the live cells of \<open>previous_grid\<close> and both
  arrays have the dimensions of the manager's grid, \<open>update_sounds\<close> returns and
  the registry's keys are then exactly the live cells of \<open>current_grid\<close>; the same
  holds at the end of any sequence of such calls, each taking the current array
  of the call before as its previous one.
\<close>

theorem registry_invariant:
  assumes "has_shape previous_grid (rows w) (cols w)"
    and "has_shape current_grid (rows w) (cols w)"
    and "registry_keys sm = set (live_cells previous_grid (rows w) (cols w))"
  shows "(\<exists>sm'. update_sounds sm w previous_grid current_grid = Inr sm'
            \<and> registry_keys sm' = set (live_cells current_grid (rows w) (cols w)))
       \<and> (\<forall>later. list_all (\<lambda>g. has_shape g (rows w) (cols w)) later \<longrightarrow>
            (\<exists>sm'. run_generations sm w previous_grid (current_grid # later) = Inr sm'
               \<and> registry_keys sm' =
                   set (live_cells (last (current_grid # later)) (rows w) (cols w))))"
proof (intro conjI allI impI)
  show "\<exists>sm'. update_sounds sm w previous_grid current_grid = Inr sm'
            \<and> registry_keys sm' = set (live_cells current_grid (rows w) (cols w))"
    by (rule update_sounds_keys[OF assms])
next
  fix later assume "list_all (\<lambda>g. has_shape g (rows w) (cols w)) later"
  then have "list_all (\<lambda>g. has_shape g (rows w) (cols w)) (current_grid # later)"
    using assms(2) by simp
  from run_generations_keys[OF assms(1) this assms(3)]
  show "\<exists>sm'. run_generations sm w previous_grid (current_grid # later) = Inr sm'
               \<and> registry_keys sm' =
                   set (live_cells (last (current_grid # later)) (rows w) (cols w))"
    by simp
qed

theorem registry_invariant_witness:
  "has_shape [[True, True]] (rows (init_grid 1 2)) (cols (init_grid 1 2))
   \<and> has_shape [[False, True]] (rows (init_grid 1 2)) (cols (init_grid 1 2))
   \<and> registry_keys two_voices = set (live_cells [[True, True]] (rows (init_grid 1 2)) (cols (init_grid 1 2)))
   \<and> (\<exists>sm'. update_sounds two_voices (init_grid 1 2) [[True, True]] [[False, True]] = Inr sm'
          \<and> registry_keys sm' = {(0, 1)})"
  using registry_invariant[of "[[True, True]]" "init_grid 1 2" "[[False, True]]" two_voices]
  by (simp add: has_shape_def init_grid_def registry_keys_def two_voices_def live_cells_def upt_rec)


section \<open>Changing the waveform\<close>

lemma has_key_delete: "has_key (AList.delete k al) k' \<longleftrightarrow> k' \<noteq> k \<and> has_key al k'"
  unfolding has_key_def keys_delete by auto

lemma has_key_update: "has_key (AList.update k v al) k' \<longleftrightarrow> k' = k \<or> has_key al k'"
  unfolding has_key_def set_map AList.dom_update by auto

lemma stop_sound_fields:
  "frequency_range (stop_sound s row col) = frequency_range s"
  "amplitude (stop_sound s row col) = amplitude s"
  "waveform (stop_sound s row col) = waveform s"
  "smooth_transitions (stop_sound s row col) = smooth_transitions s"
  by (simp_all add: stop_sound_def Let_def emit_def)

lemma stop_sound_envelopes:
  "envelopes (stop_sound s row col) =
     (if has_key (oscillators s) (row, col) then AList.delete (row, col) (envelopes s) else envelopes s)"
  by (simp add: stop_sound_def Let_def emit_def has_key_def)

lemma stop_sound_commands:
  "has_key (oscillators s) (row, col) \<Longrightarrow>
   commands (stop_sound s row col) =
     commands s @ (if smooth_transitions s \<and> has_key (envelopes s) (row, col) then [FaderStop (row, col)] else [])
       @ [OscStop (row, col)]"
  by (simp add: stop_sound_def Let_def emit_def)

lemma restart_step:
  assumes "0 < rows w" "0 < cols w" "has_key (oscillators s) k"
  shows "\<exists>s'. restart w k s = Inr s'
           \<and> commands s' = commands s @ restart_commands s w k
           \<and> oscillators s' = AList.update k (new_osc s w k) (AList.delete k (oscillators s))
           \<and> (\<forall>k'. k' \<noteq> k \<longrightarrow> has_key (envelopes s') k' = has_key (envelopes s) k')
           \<and> frequency_range s' = frequency_range s \<and> amplitude s' = amplitude s
           \<and> waveform s' = waveform s \<and> smooth_transitions s' = smooth_transitions s"
proof -
  obtain row col where k: "k = (row, col)" by (cases k)
  let ?s1 = "stop_sound s row col"
  have nk: "\<not> has_key (oscillators ?s1) (row, col)"
    by (simp add: stop_sound_oscillators has_key_delete)
  have hk: "has_key (oscillators s) (row, col)" using assms(3) k by simp
  show ?thesis
    unfolding restart_def k prod.case
    using nk hk
    by (auto simp: play_sound_def calculate_frequency_eq[OF assms(1,2)] Let_def emit_def
          stop_sound_fields stop_sound_commands stop_sound_envelopes stop_sound_oscillators
          restart_commands_def new_osc_def has_key_delete has_key_update)
qed


lemma restart_commands_cong:
  assumes "frequency_range s' = frequency_range s" "amplitude s' = amplitude s"
    "waveform s' = waveform s" "smooth_transitions s' = smooth_transitions s"
    "has_key (envelopes s') k = has_key (envelopes s) k"
  shows "restart_commands s' w k = restart_commands s w k"
  using assms by (simp add: restart_commands_def)

lemma new_osc_cong:
  assumes "frequency_range s' = frequency_range s" "amplitude s' = amplitude s"
    "waveform s' = waveform s" "smooth_transitions s' = smooth_transitions s"
  shows "new_osc s' w k = new_osc s w k"
  using assms by (simp add: new_osc_def)

lemma has_key_map_of: "has_key al k \<longleftrightarrow> map_of al k \<noteq> None"
  by (simp add: has_key_def map_of_eq_None_iff)

lemma restart_all:
  assumes "0 < rows w" "0 < cols w" "distinct ks" "\<forall>k \<in> set ks. has_key (oscillators s) k"
  shows "\<exists>s'. for_each (restart w) ks s = Inr s'
           \<and> commands s' = commands s @ concat (map (restart_commands s w) ks)
           \<and> (\<forall>k. map_of (oscillators s') k =
                    (if k \<in> set ks then Some (new_osc s w k) else map_of (oscillators s) k))
           \<and> (\<forall>k. k \<notin> set ks \<longrightarrow> has_key (envelopes s') k = has_key (envelopes s) k)
           \<and> frequency_range s' = frequency_range s \<and> amplitude s' = amplitude s
           \<and> waveform s' = waveform s \<and> smooth_transitions s' = smooth_transitions s"
  using assms(3,4)
proof (induction ks arbitrary: s)
  case Nil
  then show ?case by simp
next
  case (Cons k ks)
  have k: "has_key (oscillators s) k" "k \<notin> set ks" "distinct ks"
    using Cons.prems by auto
  from restart_step[OF assms(1,2) k(1)] obtain s1 where
    s1: "restart w k s = Inr s1"
    and c1: "commands s1 = commands s @ restart_commands s w k"
    and o1: "oscillators s1 = AList.update k (new_osc s w k) (AList.delete k (oscillators s))"
    and e1: "\<forall>k'. k' \<noteq> k \<longrightarrow> has_key (envelopes s1) k' = has_key (envelopes s) k'"
    and p1: "frequency_range s1 = frequency_range s" "amplitude s1 = amplitude s"
            "waveform s1 = waveform s" "smooth_transitions s1 = smooth_transitions s"
    by blast
  have m1: "\<And>k'. map_of (oscillators s1) k' = (if k' = k then Some (new_osc s w k) else map_of (oscillators s) k')"
    by (simp add: o1 AList.update_conv' AList.delete_conv')
  have pre: "\<forall>k' \<in> set ks. has_key (oscillators s1) k'"
    using Cons.prems(2) by (simp add: o1 has_key_update has_key_delete)
  from Cons.IH[OF k(3) pre] obtain s' where
    s': "for_each (restart w) ks s1 = Inr s'"
    and c': "commands s' = commands s1 @ concat (map (restart_commands s1 w) ks)"
    and o': "\<forall>k'. map_of (oscillators s') k' =
                    (if k' \<in> set ks then Some (new_osc s1 w k') else map_of (oscillators s1) k')"
    and e': "\<forall>k'. k' \<notin> set ks \<longrightarrow> has_key (envelopes s') k' = has_key (envelopes s1) k'"
    and p': "frequency_range s' = frequency_range s1" "amplitude s' = amplitude s1"
            "waveform s' = waveform s1" "smooth_transitions s' = smooth_transitions s1"
    by blast
  have cmds: "map (restart_commands s1 w) ks = map (restart_commands s w) ks"
  proof (rule map_cong[OF refl])
    fix k' assume "k' \<in> set ks"
    then have "k' \<noteq> k" using k(2) by auto
    then have "has_key (envelopes s1) k' = has_key (envelopes s) k'"
      using e1 by blast
    then show "restart_commands s1 w k' = restart_commands s w k'"
      by (rule restart_commands_cong[OF p1])
  qed
  have oscs: "\<And>k'. new_osc s1 w k' = new_osc s w k'"
    by (rule new_osc_cong[OF p1])
  have A: "for_each (restart w) (k # ks) s = Inr s'" using s1 s' by simp
  have B: "commands s' = commands s @ concat (map (restart_commands s w) (k # ks))"
    by (simp add: c' c1 cmds)
  have C: "\<forall>k'. map_of (oscillators s') k' =
                    (if k' \<in> set (k # ks) then Some (new_osc s w k') else map_of (oscillators s) k')"
    using o' m1 oscs by auto
  have D: "\<forall>k'. k' \<notin> set (k # ks) \<longrightarrow> has_key (envelopes s') k' = has_key (envelopes s) k'"
    using e' e1 by auto
  show ?case using A B C D p' p1 by simp
qed

lemma update_all_waveforms_restart:
  "update_all_waveforms sm w = for_each (restart w) (map fst (oscillators sm)) sm"
proof -
  have "(\<lambda>key sm. case key of (row, col) \<Rightarrow> play_sound (stop_sound sm row col) w row col) = restart w"
    by (intro ext) (simp add: restart_def)
  then show ?thesis by (simp add: update_all_waveforms_def)
qed

lemma lifecycle_restart:
  "filter is_lifecycle (restart_commands s w k) =
     [OscStop k, OscOut k (get_waveform_class (waveform s))
                   (spec_frequency (frequency_range s) (rows w) (cols w) (fst k) (snd k))]"
  by (simp add: restart_commands_def is_lifecycle_def)

lemma length_pairs: "length (concat (map (\<lambda>k. [f k, g k]) xs)) = 2 * length xs"
  by (induction xs) simp_all

lemma osc_amplitude_new: "osc_amplitude (new_osc s w k) = amplitude s"
  by (simp add: osc_amplitude_def new_osc_def)

lemma get_waveform_class_named: "get_waveform_class name = named_waveform name"
  by (simp add: get_waveform_class_def named_waveform_def)

lemma calculate_frequency_zero:
  "rows w = 0 \<or> cols w = 0 \<Longrightarrow> calculate_frequency sm w row col = Inl ZeroDivisionError"
  by (auto simp: calculate_frequency_def Let_def)

lemma restart_zero:
  assumes "rows w = 0 \<or> cols w = 0"
  shows "restart w k s = Inl ZeroDivisionError"
proof -
  obtain row col where k: "k = (row, col)" by (cases k)
  have "\<not> has_key (oscillators (stop_sound s row col)) (row, col)"
    by (simp add: stop_sound_oscillators has_key_delete)
  then show ?thesis
    unfolding restart_def k prod.case
    by (simp add: play_sound_def calculate_frequency_zero[OF assms])
qed

lemma set_waveform_zero:
  assumes "rows w = 0 \<or> cols w = 0" "oscillators sm \<noteq> []"
  shows "set_waveform sm w waveform_type = Inl ZeroDivisionError"
proof -
  obtain ko rest where "oscillators sm = ko # rest"
    using assms(2) by (cases "oscillators sm") auto
  then show ?thesis
    by (simp add: set_waveform_def update_all_waveforms_restart restart_zero[OF assms(1)])
qed

text \<open>
  C7, as stated, fails. Two voices are started on a 1 by 2 grid and the widget
  is then resized to 0 by 0. \<open>set_waveform\<close> stops the first voice and raises
  \<open>ZeroDivisionError\<close> when it computes the frequency of the replacement: no
  stop-then-start pair is completed for either of the two voices.
\<close>

theorem set_waveform_empty_grid_counterexample:
  "update_sounds init_sound_manager (init_grid 1 2) [[False, False]] [[True, True]] = Inr two_voices
   \<and> resize_grid ((init_grid 1 2)\<lparr>grid := [[True, True]]\<rparr>) 0 0 = Inr (init_grid 0 0)
   \<and> length (oscillators two_voices) = 2
   \<and> set_waveform two_voices (init_grid 0 0) ''Square'' = Inl ZeroDivisionError"
  by (simp add: sound_defs set_waveform_def update_all_waveforms_def init_grid_def
        init_sound_manager_def two_voices_def upt_rec resize_grid_def assign_block_def zeros_def)

text \<open>
  C7, amended. With \<open>N\<close> voices in the registry, on a grid with at least one row
  and one column, \<open>set_waveform\<close> returns, and the oscillator commands it issues
  are exactly \<open>N\<close> pairs of a stop followed by a start, one pair per registry key
  in the order of the keys. Afterwards the registry has the same keys, and the
  voice of each key has the class the new waveform names (sine, square,
  sawtooth or triangle; sine for any other name), the frequency
  \<open>calculate_frequency\<close> gives for its cell (the frequency of the old voice, if that
  was computed with the same range and dimensions) and the stored amplitude.
  On a grid without rows or without columns the call raises
  \<open>ZeroDivisionError\<close> as soon as the registry holds a voice.
\<close>

theorem set_waveform_restarts_every_voice:
  assumes "distinct (map fst (oscillators sm))"
  shows "(0 < rows w \<and> 0 < cols w \<longrightarrow>
          (\<exists>sm' new.
             set_waveform sm w waveform_type = Inr sm'
           \<and> waveform sm' = waveform_type
           \<and> commands sm' = commands sm @ new
           \<and> filter is_lifecycle new =
               concat (map (\<lambda>k. [OscStop k,
                                  OscOut k (named_waveform waveform_type)
                                    (spec_frequency (frequency_range sm) (rows w) (cols w) (fst k) (snd k))])
                        (map fst (oscillators sm)))
           \<and> length (filter is_lifecycle new) = 2 * length (oscillators sm)
           \<and> registry_keys sm' = registry_keys sm
           \<and> (\<forall>k \<in> registry_keys sm. \<exists>osc'.
                 map_of (oscillators sm') k = Some osc'
               \<and> osc_class osc' = named_waveform waveform_type
               \<and> calculate_frequency sm w (fst k) (snd k) = Inr (osc_freq osc')
               \<and> osc_amplitude osc' = amplitude sm
               \<and> (\<forall>osc. map_of (oscillators sm) k = Some osc
                          \<and> calculate_frequency sm w (fst k) (snd k) = Inr (osc_freq osc)
                        \<longrightarrow> osc_freq osc' = osc_freq osc))))
       \<and> ((rows w = 0 \<or> cols w = 0) \<and> oscillators sm \<noteq> [] \<longrightarrow>
            set_waveform sm w waveform_type = Inl ZeroDivisionError)"
proof (intro conjI impI)
  assume "(rows w = 0 \<or> cols w = 0) \<and> oscillators sm \<noteq> []"
  then show "set_waveform sm w waveform_type = Inl ZeroDivisionError"
    by (simp add: set_waveform_zero)
next
  assume "0 < rows w \<and> 0 < cols w"
  then have pos: "0 < rows w" "0 < cols w" by simp_all
  let ?s = "sm\<lparr>waveform := waveform_type\<rparr>"
  let ?ks = "map fst (oscillators sm)"
  have pre: "\<forall>k \<in> set ?ks. has_key (oscillators ?s) k"
    by (simp add: has_key_def)
  from restart_all[OF pos assms pre] obtain sm' where
    run: "for_each (restart w) ?ks ?s = Inr sm'"
    and cmds: "commands sm' = commands ?s @ concat (map (restart_commands ?s w) ?ks)"
    and oscs: "\<forall>k. map_of (oscillators sm') k =
                    (if k \<in> set ?ks then Some (new_osc ?s w k) else map_of (oscillators ?s) k)"
    and wf: "waveform sm' = waveform ?s"
    by blast
  let ?new = "concat (map (restart_commands ?s w) ?ks)"
  have A: "set_waveform sm w waveform_type = Inr sm'"
    using run by (simp add: set_waveform_def update_all_waveforms_restart)
  have B: "filter is_lifecycle ?new =
             concat (map (\<lambda>k. [OscStop k,
                                OscOut k (named_waveform waveform_type)
                                  (spec_frequency (frequency_range sm) (rows w) (cols w) (fst k) (snd k))])
                      ?ks)"
    by (simp add: filter_concat comp_def lifecycle_restart get_waveform_class_named)
  have C: "length (filter is_lifecycle ?new) = 2 * length (oscillators sm)"
    unfolding B using length_pairs[of _ _ "map fst (oscillators sm)"] by simp
  have keys: "registry_keys sm' = registry_keys sm"
  proof -
    have "has_key (oscillators sm') k = has_key (oscillators sm) k" for k
    proof (cases "k \<in> set ?ks")
      case True
      then have "map_of (oscillators sm') k \<noteq> None" using oscs[rule_format, of k] by simp
      then have "has_key (oscillators sm') k" by (simp add: has_key_map_of)
      moreover have "has_key (oscillators sm) k" using True by (simp add: has_key_def)
      ultimately show ?thesis by simp
    next
      case False
      then have "map_of (oscillators sm') k = map_of (oscillators sm) k"
        using oscs[rule_format, of k] by simp
      then show ?thesis by (simp add: has_key_map_of)
    qed
    then show ?thesis by (auto simp: has_key_keys[symmetric])
  qed
  have D: "\<forall>k \<in> registry_keys sm. \<exists>osc'.
               map_of (oscillators sm') k = Some osc'
             \<and> osc_class osc' = named_waveform waveform_type
             \<and> calculate_frequency sm w (fst k) (snd k) = Inr (osc_freq osc')
             \<and> osc_amplitude osc' = amplitude sm
             \<and> (\<forall>osc. map_of (oscillators sm) k = Some osc
                        \<and> calculate_frequency sm w (fst k) (snd k) = Inr (osc_freq osc)
                      \<longrightarrow> osc_freq osc' = osc_freq osc)"
  proof
    fix k assume "k \<in> registry_keys sm"
    then have "map_of (oscillators sm') k = Some (new_osc ?s w k)"
      using oscs[rule_format, of k] by (simp add: registry_keys_def)
    moreover have "osc_class (new_osc ?s w k) = named_waveform waveform_type"
      "osc_freq (new_osc ?s w k) = spec_frequency (frequency_range sm) (rows w) (cols w) (fst k) (snd k)"
      by (simp_all add: new_osc_def get_waveform_class_named)
    moreover have "osc_amplitude (new_osc ?s w k) = amplitude sm"
      by (simp add: osc_amplitude_new)
    ultimately show "\<exists>osc'.
               map_of (oscillators sm') k = Some osc'
             \<and> osc_class osc' = named_waveform waveform_type
             \<and> calculate_frequency sm w (fst k) (snd k) = Inr (osc_freq osc')
             \<and> osc_amplitude osc' = amplitude sm
             \<and> (\<forall>osc. map_of (oscillators sm) k = Some osc
                        \<and> calculate_frequency sm w (fst k) (snd k) = Inr (osc_freq osc)
                      \<longrightarrow> osc_freq osc' = osc_freq osc)"
      by (simp add: calculate_frequency_eq[OF pos])
  qed
  show "\<exists>sm' new.
             set_waveform sm w waveform_type = Inr sm'
           \<and> waveform sm' = waveform_type
           \<and> commands sm' = commands sm @ new
           \<and> filter is_lifecycle new =
               concat (map (\<lambda>k. [OscStop k,
                                  OscOut k (named_waveform waveform_type)
                                    (spec_frequency (frequency_range sm) (rows w) (cols w) (fst k) (snd k))])
                        (map fst (oscillators sm)))
           \<and> length (filter is_lifecycle new) = 2 * length (oscillators sm)
           \<and> registry_keys sm' = registry_keys sm
           \<and> (\<forall>k \<in> registry_keys sm. \<exists>osc'.
                 map_of (oscillators sm') k = Some osc'
               \<and> osc_class osc' = named_waveform waveform_type
               \<and> calculate_frequency sm w (fst k) (snd k) = Inr (osc_freq osc')
               \<and> osc_amplitude osc' = amplitude sm
               \<and> (\<forall>osc. map_of (oscillators sm) k = Some osc
                          \<and> calculate_frequency sm w (fst k) (snd k) = Inr (osc_freq osc)
                        \<longrightarrow> osc_freq osc' = osc_freq osc))"
    using A B C D keys wf cmds by (intro exI[of _ sm'] exI[of _ ?new]) simp
qed

theorem set_waveform_restarts_every_voice_witness:
  "distinct (map fst (oscillators two_voices))
   \<and> 0 < rows (init_grid 1 2) \<and> 0 < cols (init_grid 1 2)
   \<and> named_waveform ''Triangle'' = Tri
   \<and> (\<exists>sm'. set_waveform two_voices (init_grid 1 2) ''Triangle'' = Inr sm'
          \<and> waveform sm' = ''Triangle''
          \<and> commands sm' = commands two_voices @
               [FaderStop (0, 0), OscStop (0, 0), OscOut (0, 0) Tri 200,
                FaderPlay (0, 0) (Fader 0.5 0.5 0 0.5),
                FaderStop (0, 1), OscStop (0, 1), OscOut (0, 1) Tri 600,
                FaderPlay (0, 1) (Fader 0.5 0.5 0 0.5)]
          \<and> oscillators sm' =
               [((0, 0), \<lparr>osc_class = Tri, osc_freq = 200, osc_mul = Env (Fader 0.5 0.5 0 0.5)\<rparr>),
                ((0, 1), \<lparr>osc_class = Tri, osc_freq = 600, osc_mul = Env (Fader 0.5 0.5 0 0.5)\<rparr>)])
   \<and> (\<exists>sm'. set_waveform two_voices (init_grid 1 2) ''Sawtooth'' = Inr sm'
          \<and> map (osc_class \<circ> snd) (oscillators sm') = [Saw, Saw])
   \<and> cols (init_grid 2 0) = 0 \<and> oscillators two_voices \<noteq> []
   \<and> set_waveform two_voices (init_grid 2 0) ''Triangle'' = Inl ZeroDivisionError"
  using set_waveform_restarts_every_voice[of two_voices "init_grid 1 2" "''Triangle''"]
        set_waveform_restarts_every_voice[of two_voices "init_grid 2 0" "''Triangle''"]
  by (simp add: set_waveform_def update_all_waveforms_def sound_defs init_grid_def
        two_voices_def init_sound_manager_def named_waveform_def)

end
